theory Spec2Isabelle
  imports Main "HOL-Library.Multiset"
begin

section \<open>Skill-exchange backend: the route handlers of server.js\<close>

text \<open>
  The handlers of \<^verbatim>\<open>server.js\<close> are modelled as functions on an explicit database
  state. Each handler is the body that runs after the \<^verbatim>\<open>auth\<close> middleware has
  set \<^verbatim>\<open>req.user\<close>: the argument \<open>u\<close> is \<^verbatim>\<open>req.user.id\<close>. Route parameters are taken
  after \<^verbatim>\<open>Number(...)\<close>, as integers. A handler runs from its first query to its
  response without another handler in between.
\<close>

subsection \<open>Rows and tables\<close>

text \<open>
  The columns are the ones the handlers read and write. Field names carry a
  prefix where two tables share a column name.
\<close>

record skill =
  s_id :: int
  s_title :: string
  s_description :: "string option"
  s_videoPath :: string
  s_ownerId :: int
  s_createdAt :: int

record want =
  w_id :: int
  w_title :: string
  w_description :: "string option"
  w_ownerId :: int
  w_createdAt :: int

record request =
  r_id :: int
  fromId :: int
  toId :: int
  skillId :: int
  status :: string
  r_createdAt :: int

record permission =
  p_id :: int
  userId :: int
  videoId :: int

text \<open>A table is the list of its rows in insertion order.\<close>

record db =
  skills :: "skill list"
  wants :: "want list"
  requests :: "request list"
  permissions :: "permission list"

text \<open>
  A response is either the payload of \<^verbatim>\<open>res.json(...)\<close> / \<^verbatim>\<open>res.sendFile(...)\<close>,
  or \<^verbatim>\<open>res.status(code).json({ error: message })\<close>. \<open>Throws\<close> is the
  third way a handler ends: an error of the store that no \<^verbatim>\<open>catch\<close> of the handler
  takes, so that the handler's promise rejects with it and the handler sends nothing.
\<close>

datatype 'a response = Reply 'a | Fail nat string | Throws string

subsection \<open>The store's operations\<close>

text \<open>
  Modelled from the spec: the Prisma schema is not part of the source. Identifiers
  are assigned by the store, fresh for the table; a Request is created in state
  \<^verbatim>\<open>pending\<close>; Permission has the compound unique key \<^verbatim>\<open>userId_videoId\<close> that
  the handlers name; creation timestamps are the time of the call (\<open>now\<close>).
\<close>

definition next_id :: "int list \<Rightarrow> int" where
  "next_id ids = fold max ids 0 + 1"

text \<open>
  Modelled from the spec: the title of a Skill and of a Want is a required column, the
  description is optional. \<^verbatim>\<open>create\<close> without a title is refused by the store with a
  validation error and stores nothing; with a title, the empty string included, it
  appends the row and returns it. Only the existence of the error's message matters
  below, not its text.
\<close>

datatype store_error = Missing_argument string

definition error_message :: "store_error \<Rightarrow> string" where
  "error_message e = (case e of Missing_argument a \<Rightarrow> ''Argument '' @ a @ '' is missing'')"

definition skill_create ::
  "db \<Rightarrow> int \<Rightarrow> string option \<Rightarrow> string option \<Rightarrow> string \<Rightarrow> int \<Rightarrow> store_error + skill \<times> db" where
  "skill_create d now title description path owner =
     (case title of
        None \<Rightarrow> Inl (Missing_argument ''title'')
      | Some t \<Rightarrow>
          (let sk = \<lparr>s_id = next_id (map s_id (skills d)), s_title = t,
                     s_description = description, s_videoPath = path,
                     s_ownerId = owner, s_createdAt = now\<rparr>
           in Inr (sk, d\<lparr>skills := skills d @ [sk]\<rparr>)))"

definition want_create ::
  "db \<Rightarrow> int \<Rightarrow> string option \<Rightarrow> string option \<Rightarrow> int \<Rightarrow> store_error + want \<times> db" where
  "want_create d now title description owner =
     (case title of
        None \<Rightarrow> Inl (Missing_argument ''title'')
      | Some t \<Rightarrow>
          (let w = \<lparr>w_id = next_id (map w_id (wants d)), w_title = t,
                    w_description = description, w_ownerId = owner, w_createdAt = now\<rparr>
           in Inr (w, d\<lparr>wants := wants d @ [w]\<rparr>)))"

definition skill_findUnique :: "db \<Rightarrow> int \<Rightarrow> skill option" where
  "skill_findUnique d i = find (\<lambda>s. s_id s = i) (skills d)"

definition request_findUnique :: "db \<Rightarrow> int \<Rightarrow> request option" where
  "request_findUnique d i = find (\<lambda>r. r_id r = i) (requests d)"

definition request_findFirst_pending :: "db \<Rightarrow> int \<Rightarrow> int \<Rightarrow> request option" where
  "request_findFirst_pending d u s =
     find (\<lambda>r. fromId r = u \<and> skillId r = s \<and> status r = ''pending'') (requests d)"

definition request_update :: "int \<Rightarrow> string \<Rightarrow> request list \<Rightarrow> request list" where
  "request_update i st rs = map (\<lambda>r. if r_id r = i then r\<lparr>status := st\<rparr> else r) rs"

definition permission_findUnique :: "db \<Rightarrow> int \<Rightarrow> int \<Rightarrow> permission option" where
  "permission_findUnique d u v = find (\<lambda>p. userId p = u \<and> videoId p = v) (permissions d)"

definition permission_upsert :: "int \<Rightarrow> int \<Rightarrow> permission list \<Rightarrow> permission list" where
  "permission_upsert u v ps =
     (case find (\<lambda>p. userId p = u \<and> videoId p = v) ps of
        Some p \<Rightarrow> ps
      | None \<Rightarrow> ps @ [\<lparr>p_id = next_id (map p_id ps), userId = u, videoId = v\<rparr>])"

text \<open>\<^verbatim>\<open>orderBy: { createdAt: "desc" }\<close>.\<close>

definition orderBy_desc :: "('a \<Rightarrow> int) \<Rightarrow> 'a list \<Rightarrow> 'a list" where
  "orderBy_desc f xs = rev (sort_key f xs)"

text \<open>
  Modelled from the spec: the store's filter \<^verbatim>\<open>{ contains: t, mode: "insensitive" }\<close>
  is case-insensitive substring containment; letters are the ASCII letters.
\<close>

definition lower_char :: "char \<Rightarrow> char" where
  "lower_char c =
     (let n = (of_char c :: nat) in if 65 \<le> n \<and> n \<le> 90 then char_of (n + 32) else c)"

fun is_prefix :: "string \<Rightarrow> string \<Rightarrow> bool" where
  "is_prefix [] ys = True"
| "is_prefix (x # xs) [] = False"
| "is_prefix (x # xs) (y # ys) = (x = y \<and> is_prefix xs ys)"

fun contains_str :: "string \<Rightarrow> string \<Rightarrow> bool" where
  "contains_str [] t = (t = [])"
| "contains_str (c # cs) t = (is_prefix t (c # cs) \<or> contains_str cs t)"

definition contains_insensitive :: "string \<Rightarrow> string \<Rightarrow> bool" where
  "contains_insensitive title t = contains_str (map lower_char title) (map lower_char t)"

subsection \<open>Catalog: POST /skills, POST /wants\<close>

text \<open>
  \<open>title\<close> and \<open>description\<close> are \<^verbatim>\<open>req.body.title\<close> and \<^verbatim>\<open>req.body.description\<close>,
  \<open>None\<close> when the body has no such field. \<open>file\<close> is \<^verbatim>\<open>req.file\<close>: the stored
  file's name, or \<open>None\<close> when no video was uploaded. The handler of POST /skills
  runs in \<^verbatim>\<open>try\<close> / \<^verbatim>\<open>catch\<close>: an error of the store becomes the reply 400 with the
  error's message.
\<close>

definition create_skill ::
  "db \<Rightarrow> int \<Rightarrow> int \<Rightarrow> string option \<Rightarrow> string option \<Rightarrow> string option \<Rightarrow>
     skill response \<times> db" where
  "create_skill d now u title description file =
     (case file of
        None \<Rightarrow> (Fail 400 ''Video required'', d)
      | Some filename \<Rightarrow>
          (case skill_create d now title description filename u of
             Inl e \<Rightarrow> (Fail 400 (error_message e), d)
           | Inr (sk, d') \<Rightarrow> (Reply sk, d')))"

text \<open>The handler of POST /wants has no \<^verbatim>\<open>catch\<close>: an error of the store leaves it as it is.\<close>

definition create_want ::
  "db \<Rightarrow> int \<Rightarrow> int \<Rightarrow> string option \<Rightarrow> string option \<Rightarrow> want response \<times> db" where
  "create_want d now u title description =
     (case want_create d now title description u of
        Inl e \<Rightarrow> (Throws (error_message e), d)
      | Inr (w, d') \<Rightarrow> (Reply w, d'))"

subsection \<open>Matcher: GET /matches\<close>

definition matches :: "db \<Rightarrow> int \<Rightarrow> skill list" where
  "matches d u =
     (let myWants = filter (\<lambda>w. w_ownerId w = u) (wants d) in
      if length myWants = 0 then []
      else orderBy_desc s_createdAt
             (filter (\<lambda>s. s_ownerId s \<noteq> u \<and>
                          list_ex (\<lambda>w. contains_insensitive (s_title s) (w_title w)) myWants)
                (skills d)))"

subsection \<open>Requests: create, list, accept, decline\<close>

definition create_request :: "db \<Rightarrow> int \<Rightarrow> int \<Rightarrow> int \<Rightarrow> request response \<times> db" where
  "create_request d now u vid =
     (case skill_findUnique d vid of
        None \<Rightarrow> (Fail 404 ''Video not found'', d)
      | Some video \<Rightarrow>
          if s_ownerId video = u then (Fail 400 ''Cannot request your own video'', d)
          else (case request_findFirst_pending d u vid of
                  Some existing \<Rightarrow> (Fail 400 ''Request already pending'', d)
                | None \<Rightarrow>
                    (let reqRow = \<lparr>r_id = next_id (map r_id (requests d)), fromId = u,
                                    toId = s_ownerId video, skillId = vid,
                                    status = ''pending'', r_createdAt = now\<rparr>
                     in (Reply reqRow, d\<lparr>requests := requests d @ [reqRow]\<rparr>))))"

text \<open>\<open>type\<close> is \<^verbatim>\<open>req.query.type\<close>, \<open>None\<close> when the query has no such parameter.\<close>

definition get_requests :: "db \<Rightarrow> int \<Rightarrow> string option \<Rightarrow> request list" where
  "get_requests d u type =
     orderBy_desc r_createdAt
       (filter (if type = Some ''outgoing'' then (\<lambda>r. fromId r = u) else (\<lambda>r. toId r = u))
          (requests d))"

definition accept_request :: "db \<Rightarrow> int \<Rightarrow> int \<Rightarrow> request response \<times> db" where
  "accept_request d i u =
     (case request_findUnique d i of
        None \<Rightarrow> (Fail 404 ''Not found'', d)
      | Some r \<Rightarrow>
          if toId r \<noteq> u then (Fail 403 ''Not your request'', d)
          else (let updated = r\<lparr>status := ''accepted''\<rparr>
                in (Reply updated,
                    d\<lparr>requests := request_update i ''accepted'' (requests d),
                      permissions := permission_upsert (fromId r) (skillId r) (permissions d)\<rparr>)))"

definition decline_request :: "db \<Rightarrow> int \<Rightarrow> int \<Rightarrow> request response \<times> db" where
  "decline_request d i u =
     (case request_findUnique d i of
        None \<Rightarrow> (Fail 404 ''Not found'', d)
      | Some r \<Rightarrow>
          if toId r \<noteq> u then (Fail 403 ''Not your request'', d)
          else (let updated = r\<lparr>status := ''declined''\<rparr>
                in (Reply updated,
                    d\<lparr>requests := request_update i ''declined'' (requests d)\<rparr>)))"

text \<open>Accepting the same request \<open>n\<close> times in a row, all responses collected.\<close>

fun accept_times :: "nat \<Rightarrow> db \<Rightarrow> int \<Rightarrow> int \<Rightarrow> request response list \<times> db" where
  "accept_times 0 d i u = ([], d)"
| "accept_times (Suc n) d i u =
     (let (res, d1) = accept_request d i u; (rs, d2) = accept_times n d1 i u
      in (res # rs, d2))"

subsection \<open>Stream gate: GET /stream/:videoId\<close>

text \<open>
  \<open>files\<close> is the set of names under the upload directory for which
  \<^verbatim>\<open>fs.existsSync\<close> is true; the reply is the file sent.
\<close>

definition stream :: "db \<Rightarrow> string set \<Rightarrow> int \<Rightarrow> int \<Rightarrow> string response" where
  "stream d files u vid =
     (case skill_findUnique d vid of
        None \<Rightarrow> Fail 404 ''Video not found''
      | Some video \<Rightarrow>
          if s_ownerId video \<noteq> u \<and> permission_findUnique d u vid = None
          then Fail 403 ''No permission''
          else if s_videoPath video \<notin> files then Fail 404 ''File missing''
          else Reply (s_videoPath video))"

subsection \<open>States the handlers can produce\<close>

definition empty_db :: db where
  "empty_db = \<lparr>skills = [], wants = [], requests = [], permissions = []\<rparr>"

text \<open>
  A state is reachable when a sequence of calls of the writing handlers leads to it from
  the empty database.
\<close>

inductive reachable :: "db \<Rightarrow> bool" where
  start: "reachable empty_db"
| skill: "reachable d \<Longrightarrow> reachable (snd (create_skill d now u title description file))"
| want: "reachable d \<Longrightarrow> reachable (snd (create_want d now u title description))"
| request: "reachable d \<Longrightarrow> reachable (snd (create_request d now u vid))"
| accept: "reachable d \<Longrightarrow> reachable (snd (accept_request d i u))"
| decline: "reachable d \<Longrightarrow> reachable (snd (decline_request d i u))"

text \<open>At most one pending request for each pair of requester and skill.\<close>

definition pending_unique :: "db \<Rightarrow> bool" where
  "pending_unique d =
     (\<forall>r1 \<in> set (requests d). \<forall>r2 \<in> set (requests d).
        status r1 = ''pending'' \<and> status r2 = ''pending'' \<and>
        fromId r1 = fromId r2 \<and> skillId r1 = skillId r2 \<longrightarrow> r_id r1 = r_id r2)"

text \<open>Every request names a stored skill, is addressed to its owner and comes from someone else.\<close>

definition requests_refer :: "db \<Rightarrow> bool" where
  "requests_refer d =
     (\<forall>r \<in> set (requests d).
        case skill_findUnique d (skillId r) of
          None \<Rightarrow> False
        | Some v \<Rightarrow> s_ownerId v = toId r \<and> toId r \<noteq> fromId r)"

text \<open>The compound key \<^verbatim>\<open>userId_videoId\<close> of Permission is unique.\<close>

definition permission_key_unique :: "db \<Rightarrow> bool" where
  "permission_key_unique d = distinct (map (\<lambda>p. (userId p, videoId p)) (permissions d))"

subsection \<open>The example scenario\<close>

text \<open>
  User 1 posts the want "cooking"; user 2 uploads the skill "Cooking Basics"; user 1
  requests it; user 2 accepts. User 3 is unrelated.
\<close>

definition ex_want :: db where
  "ex_want = snd (create_want empty_db 3 1 (Some ''cooking'') None)"

definition ex_skill :: db where
  "ex_skill = snd (create_skill ex_want 5 2 (Some ''Cooking Basics'') None (Some ''v1.mp4''))"

definition ex_pending :: db where
  "ex_pending = snd (create_request ex_skill 10 1 1)"

definition ex_accepted :: db where
  "ex_accepted = snd (accept_request ex_pending 1 2)"

definition ex_request :: request where
  "ex_request = \<lparr>r_id = 1, fromId = 1, toId = 2, skillId = 1, status = ''pending'',
                  r_createdAt = 10\<rparr>"

definition ex_video :: skill where
  "ex_video = \<lparr>s_id = 1, s_title = ''Cooking Basics'', s_description = None,
                s_videoPath = ''v1.mp4'', s_ownerId = 2, s_createdAt = 5\<rparr>"

text \<open>User 2 then declines the request that was accepted.\<close>

definition ex_declined :: db where
  "ex_declined = snd (decline_request ex_accepted 1 2)"

text \<open>
  A catalog for the matcher: user 1 wants "guitar" and "LESSON", user 2 wants "piano",
  user 3 wants nothing.
\<close>

definition ex_matcher :: db where
  "ex_matcher =
     \<lparr>skills =
        [\<lparr>s_id = 1, s_title = ''Guitar Lessons for Beginners'', s_description = None,
          s_videoPath = ''a.mp4'', s_ownerId = 2, s_createdAt = 5\<rparr>,
         \<lparr>s_id = 2, s_title = ''My guitar'', s_description = None,
          s_videoPath = ''b.mp4'', s_ownerId = 1, s_createdAt = 6\<rparr>,
         \<lparr>s_id = 3, s_title = ''Piano lessons'', s_description = None,
          s_videoPath = ''c.mp4'', s_ownerId = 3, s_createdAt = 7\<rparr>,
         \<lparr>s_id = 4, s_title = ''Cooking Basics'', s_description = None,
          s_videoPath = ''d.mp4'', s_ownerId = 3, s_createdAt = 8\<rparr>],
      wants =
        [\<lparr>w_id = 1, w_title = ''guitar'', w_description = None, w_ownerId = 1, w_createdAt = 1\<rparr>,
         \<lparr>w_id = 2, w_title = ''LESSON'', w_description = None, w_ownerId = 1, w_createdAt = 2\<rparr>,
         \<lparr>w_id = 3, w_title = ''piano'', w_description = None, w_ownerId = 2, w_createdAt = 3\<rparr>],
      requests = [], permissions = []\<rparr>"

section \<open>Properties\<close>

subsection \<open>Lemmas about the store's operations\<close>

lemma fold_max_ge: "a \<le> fold max ids (a::int) \<and> (\<forall>x \<in> set ids. x \<le> fold max ids a)"
proof (induction ids arbitrary: a)
  case Nil
  show ?case by simp
next
  case (Cons y ys)
  from Cons.IH [of "max y a"] show ?case by auto
qed

lemma next_id_fresh: "next_id ids \<notin> set ids"
proof
  assume "next_id ids \<in> set ids"
  with fold_max_ge [of 0 ids] have "next_id ids \<le> fold max ids 0" by blast
  then show False by (simp add: next_id_def)
qed

lemma find_app:
  "find P (xs @ ys) = (case find P xs of None \<Rightarrow> find P ys | Some x \<Rightarrow> Some x)"
  by (induction xs) auto

lemma find_request_update:
  "find (\<lambda>r. r_id r = i) rs = Some r \<Longrightarrow>
   find (\<lambda>r. r_id r = i) (request_update i st rs) = Some (r\<lparr>status := st\<rparr>)"
  by (induction rs) (auto simp: request_update_def)

lemma request_update_twice:
  "request_update i st (request_update i st' rs) = request_update i st rs"
  by (induction rs) (auto simp: request_update_def)

lemma upsert_found:
  "find (\<lambda>p. userId p = u \<and> videoId p = v) (permission_upsert u v ps) \<noteq> None"
proof (cases "find (\<lambda>p. userId p = u \<and> videoId p = v) ps")
  case None
  then show ?thesis by (simp add: permission_upsert_def find_app)
next
  case (Some p)
  then show ?thesis by (simp add: permission_upsert_def)
qed

lemma upsert_twice:
  "permission_upsert u v (permission_upsert u v ps) = permission_upsert u v ps"
  using upsert_found [of u v ps]
  by (cases "find (\<lambda>p. userId p = u \<and> videoId p = v) (permission_upsert u v ps)")
     (auto simp: permission_upsert_def [of u v "permission_upsert u v ps"])

lemma upsert_existing:
  "find (\<lambda>p. userId p = u \<and> videoId p = v) ps \<noteq> None \<Longrightarrow> permission_upsert u v ps = ps"
  by (auto simp: permission_upsert_def)

lemma upsert_distinct:
  "distinct (map (\<lambda>p. (userId p, videoId p)) ps) \<Longrightarrow>
   distinct (map (\<lambda>p. (userId p, videoId p)) (permission_upsert u v ps))"
  by (auto simp: permission_upsert_def find_None_iff split: option.splits)

lemma distinct_key_count:
  "distinct (map f xs) \<Longrightarrow> length (filter (\<lambda>x. f x = k) xs) \<le> 1"
proof (induction xs)
  case Nil
  show ?case by simp
next
  case (Cons a xs)
  show ?case
  proof (cases "f a = k")
    case True
    with Cons.prems have "k \<notin> f ` set xs" by simp
    then have "filter (\<lambda>x. f x = k) xs = []"
      by (auto simp: filter_empty_conv)
    with True show ?thesis by simp
  next
    case False
    with Cons show ?thesis by simp
  qed
qed

lemma found_count:
  "find P xs \<noteq> None \<Longrightarrow> 1 \<le> length (filter P xs)"
  by (induction xs) auto

lemma upsert_count:
  assumes "distinct (map (\<lambda>p. (userId p, videoId p)) ps)"
  shows "length (filter (\<lambda>p. userId p = u \<and> videoId p = v) (permission_upsert u v ps)) = 1"
proof -
  let ?qs = "permission_upsert u v ps"
  have "length (filter (\<lambda>p. (userId p, videoId p) = (u, v)) ?qs) \<le> 1"
    by (rule distinct_key_count) (rule upsert_distinct [OF assms])
  moreover have "1 \<le> length (filter (\<lambda>p. userId p = u \<and> videoId p = v) ?qs)"
    by (rule found_count) (rule upsert_found)
  ultimately show ?thesis by simp
qed

lemma accept_request_ok:
  "request_findUnique d i = Some r \<Longrightarrow>
   accept_request d i (toId r) =
     (Reply (r\<lparr>status := ''accepted''\<rparr>),
      d\<lparr>requests := request_update i ''accepted'' (requests d),
        permissions := permission_upsert (fromId r) (skillId r) (permissions d)\<rparr>)"
  by (simp add: accept_request_def)

lemma decline_request_ok:
  "request_findUnique d i = Some r \<Longrightarrow>
   decline_request d i (toId r) =
     (Reply (r\<lparr>status := ''declined''\<rparr>),
      d\<lparr>requests := request_update i ''declined'' (requests d)\<rparr>)"
  by (simp add: decline_request_def)

lemma accept_times_Suc:
  "request_findUnique d i = Some r \<Longrightarrow>
   accept_times (Suc n) d i (toId r) =
     (replicate (Suc n) (Reply (r\<lparr>status := ''accepted''\<rparr>)),
      snd (accept_request d i (toId r)))"
proof (induction n arbitrary: d r)
  case 0
  then show ?case by (simp add: accept_request_ok)
next
  case (Suc n)
  let ?r = "r\<lparr>status := ''accepted''\<rparr>"
  let ?d = "snd (accept_request d i (toId r))"
  have found: "request_findUnique ?d i = Some ?r"
    using Suc.prems by (simp add: accept_request_ok request_findUnique_def find_request_update)
  have again: "snd (accept_request ?d i (toId r)) = ?d"
    using accept_request_ok [OF found] Suc.prems
    by (simp add: accept_request_ok request_update_twice upsert_twice)
  from Suc.IH [OF found] again
  have "accept_times (Suc n) ?d i (toId r) = (replicate (Suc n) (Reply ?r), ?d)"
    by simp
  then show ?case
    using Suc.prems by (simp add: accept_request_ok)
qed

lemma is_prefix_iff: "is_prefix xs ys \<longleftrightarrow> (\<exists>ss. ys = xs @ ss)"
  by (induction xs ys rule: is_prefix.induct) auto

lemma contains_str_iff: "contains_str xs t \<longleftrightarrow> (\<exists>ps ss. xs = ps @ t @ ss)"
proof (induction xs)
  case Nil
  show ?case by simp
next
  case (Cons c cs)
  have "(\<exists>ps ss. c # cs = ps @ t @ ss) \<longleftrightarrow>
        (\<exists>ss. c # cs = t @ ss) \<or> (\<exists>ps ss. cs = ps @ t @ ss)"
  proof
    assume "\<exists>ps ss. c # cs = ps @ t @ ss"
    then obtain ps ss where e: "c # cs = ps @ t @ ss" by blast
    show "(\<exists>ss. c # cs = t @ ss) \<or> (\<exists>ps ss. cs = ps @ t @ ss)"
    proof (cases ps)
      case Nil
      with e show ?thesis by auto
    next
      case (Cons p ps')
      with e have "cs = ps' @ t @ ss" by simp
      then show ?thesis by blast
    qed
  next
    assume "(\<exists>ss. c # cs = t @ ss) \<or> (\<exists>ps ss. cs = ps @ t @ ss)"
    then show "\<exists>ps ss. c # cs = ps @ t @ ss"
    proof
      assume "\<exists>ss. c # cs = t @ ss"
      then obtain ss where "c # cs = [] @ t @ ss" by auto
      then show ?thesis by blast
    next
      assume "\<exists>ps ss. cs = ps @ t @ ss"
      then obtain ps ss where "c # cs = (c # ps) @ t @ ss" by auto
      then show ?thesis by blast
    qed
  qed
  with Cons show ?case by (simp add: is_prefix_iff)
qed

lemma orderBy_desc_mset: "mset (orderBy_desc f xs) = mset xs"
  by (simp add: orderBy_desc_def)

lemma orderBy_desc_sorted: "sorted_wrt (\<lambda>a b. f b \<le> f a) (orderBy_desc f xs)"
proof -
  have "sorted (map f (sort_key f xs))" by simp
  then have "sorted_wrt (\<lambda>a b. f a \<le> f b) (sort_key f xs)" by (simp only: sorted_map)
  then show ?thesis by (simp add: orderBy_desc_def sorted_wrt_rev)
qed

lemma find_SomeD: "find P xs = Some x \<Longrightarrow> P x \<and> x \<in> set xs"
  by (induction xs) (auto split: if_splits)

lemma skill_find_None: "skill_findUnique d s = None \<longleftrightarrow> s \<notin> s_id ` set (skills d)"
  by (auto simp: skill_findUnique_def find_None_iff)

lemma pending_find_None:
  "request_findFirst_pending d u s = None \<longleftrightarrow>
   \<not> (\<exists>r \<in> set (requests d). fromId r = u \<and> skillId r = s \<and> status r = ''pending'')"
  by (auto simp: request_findFirst_pending_def find_None_iff)

lemma permission_find_None:
  "permission_findUnique d u s = None \<longleftrightarrow>
   \<not> (\<exists>p \<in> set (permissions d). userId p = u \<and> videoId p = s)"
  by (auto simp: permission_findUnique_def find_None_iff)

lemma create_request_ok:
  assumes "skill_findUnique d s = Some v" and "s_ownerId v \<noteq> u"
    and "request_findFirst_pending d u s = None"
  shows "create_request d now u s =
           (Reply \<lparr>r_id = next_id (map r_id (requests d)), fromId = u, toId = s_ownerId v,
                    skillId = s, status = ''pending'', r_createdAt = now\<rparr>,
            d\<lparr>requests := requests d @
                 [\<lparr>r_id = next_id (map r_id (requests d)), fromId = u, toId = s_ownerId v,
                   skillId = s, status = ''pending'', r_createdAt = now\<rparr>]\<rparr>)"
  using assms by (simp add: create_request_def Let_def)

lemma no_pending_after_update:
  assumes pu: "pending_unique d" and f: "request_findUnique d i = Some r"
    and p: "status r = ''pending''" and st: "st \<noteq> ''pending''"
  shows "find (\<lambda>x. fromId x = fromId r \<and> skillId x = skillId r \<and> status x = ''pending'')
           (request_update i st (requests d)) = None"
proof -
  from f have ri: "r_id r = i" and rin: "r \<in> set (requests d)"
    using find_SomeD [of "\<lambda>r. r_id r = i" "requests d" r]
    by (simp_all add: request_findUnique_def)
  have "\<not> (fromId x = fromId r \<and> skillId x = skillId r \<and> status x = ''pending'')"
    if "x \<in> set (request_update i st (requests d))" for x
  proof -
    from that obtain y where y: "y \<in> set (requests d)"
      and x: "x = (if r_id y = i then y\<lparr>status := st\<rparr> else y)"
      by (auto simp: request_update_def)
    show ?thesis
    proof (cases "r_id y = i")
      case True
      with x st show ?thesis by simp
    next
      case False
      with x have xy: "x = y" by simp
      show ?thesis
      proof
        assume "fromId x = fromId r \<and> skillId x = skillId r \<and> status x = ''pending''"
        with xy y rin p pu have "r_id y = r_id r"
          unfolding pending_unique_def by blast
        with ri False show False by simp
      qed
    qed
  qed
  then show ?thesis by (simp add: find_None_iff)
qed

lemma create_after_resolve:
  assumes pu: "pending_unique d" and rr: "requests_refer d"
    and f: "request_findUnique d i = Some r" and p: "status r = ''pending''"
    and st: "st \<noteq> ''pending''"
    and d': "skills d' = skills d" "requests d' = request_update i st (requests d)"
  shows "\<exists>r'. create_request d' now (fromId r) (skillId r) =
                 (Reply r', d'\<lparr>requests := requests d' @ [r']\<rparr>) \<and>
              status r' = ''pending'' \<and> toId r' = toId r \<and> fromId r' = fromId r \<and>
              skillId r' = skillId r"
proof -
  from f have rin: "r \<in> set (requests d)"
    using find_SomeD [of "\<lambda>r. r_id r = i" "requests d" r]
    by (simp add: request_findUnique_def)
  with rr obtain v where v: "skill_findUnique d (skillId r) = Some v"
    and o: "s_ownerId v = toId r" "toId r \<noteq> fromId r"
    unfolding requests_refer_def by (fastforce split: option.splits)
  from v d' have v': "skill_findUnique d' (skillId r) = Some v"
    by (simp add: skill_findUnique_def)
  from o have o': "s_ownerId v \<noteq> fromId r" by simp
  have n: "request_findFirst_pending d' (fromId r) (skillId r) = None"
    using no_pending_after_update [OF pu f p st] d'
    by (simp add: request_findFirst_pending_def)
  show ?thesis
    using create_request_ok [OF v' o' n] o by simp
qed

lemma stream_cases:
  assumes "skill_findUnique d s = Some v"
  shows "stream d files u s =
           (if s_ownerId v \<noteq> u \<and> \<not> (\<exists>p \<in> set (permissions d). userId p = u \<and> videoId p = s)
            then Fail 403 ''No permission''
            else if s_videoPath v \<notin> files then Fail 404 ''File missing''
            else Reply (s_videoPath v))"
  using assms by (simp add: stream_def permission_find_None)

lemma permission_after_accept:
  assumes "request_findUnique d i = Some r"
  shows "\<exists>p \<in> set (permissions (snd (accept_request d i (toId r)))).
           userId p = fromId r \<and> videoId p = skillId r"
proof -
  have "permission_findUnique (snd (accept_request d i (toId r))) (fromId r) (skillId r) \<noteq> None"
    using assms upsert_found [of "fromId r" "skillId r" "permissions d"]
    by (simp add: accept_request_ok permission_findUnique_def)
  then show ?thesis by (simp add: permission_find_None)
qed

subsection \<open>Invariants of the reachable states\<close>

text \<open>
  The handlers keep three properties: at most one pending request for a requester and a
  skill, every request names a stored skill owned by its \<open>toId\<close> and not by its
  \<open>fromId\<close>, and the Permission key is unique. They hold in the empty database, so
  in every reachable state.
\<close>

lemma update_fields:
  "x \<in> set (request_update i st rs) \<Longrightarrow>
   \<exists>y \<in> set rs. r_id x = r_id y \<and> fromId x = fromId y \<and> toId x = toId y \<and>
     skillId x = skillId y \<and> (status x = status y \<or> status x = st)"
  by (auto simp: request_update_def split: if_splits)

lemma pending_uniqueD:
  assumes "pending_unique d"
    and "x \<in> set (requests d)" and "y \<in> set (requests d)"
    and "status x = ''pending''" and "status y = ''pending''"
    and "fromId x = fromId y" and "skillId x = skillId y"
  shows "r_id x = r_id y"
proof -
  from assms(1) have "\<forall>r1 \<in> set (requests d). \<forall>r2 \<in> set (requests d).
        status r1 = ''pending'' \<and> status r2 = ''pending'' \<and>
        fromId r1 = fromId r2 \<and> skillId r1 = skillId r2 \<longrightarrow> r_id r1 = r_id r2"
    unfolding pending_unique_def .
  from bspec [OF bspec [OF this assms(2)] assms(3)] assms(4-7) show ?thesis by simp
qed

lemma pending_unique_update:
  assumes "pending_unique d" and "st \<noteq> ''pending''"
    and "requests d' = request_update i st (requests d)"
  shows "pending_unique d'"
  unfolding pending_unique_def
proof (intro ballI impI)
  fix a b
  assume a: "a \<in> set (requests d')" and b: "b \<in> set (requests d')"
    and c: "status a = ''pending'' \<and> status b = ''pending'' \<and>
            fromId a = fromId b \<and> skillId a = skillId b"
  from a assms(3) obtain a' where a': "a' \<in> set (requests d)" "r_id a = r_id a'"
    "fromId a = fromId a'" "skillId a = skillId a'" "status a = status a' \<or> status a = st"
    using update_fields [of a i st "requests d"] by auto
  from b assms(3) obtain b' where b': "b' \<in> set (requests d)" "r_id b = r_id b'"
    "fromId b = fromId b'" "skillId b = skillId b'" "status b = status b' \<or> status b = st"
    using update_fields [of b i st "requests d"] by auto
  from c a'(5) assms(2) have sa: "status a' = ''pending''" by auto
  from c b'(5) assms(2) have sb: "status b' = ''pending''" by auto
  from c a'(3) b'(3) have f: "fromId a' = fromId b'" by simp
  from c a'(4) b'(4) have s: "skillId a' = skillId b'" by simp
  have "r_id a' = r_id b'"
    by (rule pending_uniqueD [OF assms(1) a'(1) b'(1) sa sb f s])
  with a'(2) b'(2) show "r_id a = r_id b" by simp
qed

lemma requests_refer_update:
  assumes "requests_refer d" and "skills d' = skills d"
    and "requests d' = request_update i st (requests d)"
  shows "requests_refer d'"
  unfolding requests_refer_def
proof
  fix x assume "x \<in> set (requests d')"
  with assms(3) obtain y where y: "y \<in> set (requests d)" "fromId x = fromId y"
    "toId x = toId y" "skillId x = skillId y"
    using update_fields [of x i st "requests d"] by auto
  from assms(1) y(1) have "case skill_findUnique d (skillId y) of None \<Rightarrow> False
      | Some v \<Rightarrow> s_ownerId v = toId y \<and> toId y \<noteq> fromId y"
    unfolding requests_refer_def by blast
  with y assms(2) show "case skill_findUnique d' (skillId x) of None \<Rightarrow> False
      | Some v \<Rightarrow> s_ownerId v = toId x \<and> toId x \<noteq> fromId x"
    by (auto simp: skill_findUnique_def split: option.splits)
qed

lemma pending_unique_same:
  "requests d' = requests d \<Longrightarrow> pending_unique d' = pending_unique d"
  by (simp only: pending_unique_def)

lemma permission_key_unique_same:
  "permissions d' = permissions d \<Longrightarrow> permission_key_unique d' = permission_key_unique d"
  by (simp only: permission_key_unique_def)

lemma requests_refer_more_skills:
  assumes "requests_refer d" and "requests d' = requests d" and "skills d' = skills d @ sks"
  shows "requests_refer d'"
  unfolding requests_refer_def
proof
  fix x assume "x \<in> set (requests d')"
  with assms(2) have "x \<in> set (requests d)" by simp
  with assms(1) have "case skill_findUnique d (skillId x) of None \<Rightarrow> False
      | Some v \<Rightarrow> s_ownerId v = toId x \<and> toId x \<noteq> fromId x"
    unfolding requests_refer_def by (rule bspec)
  then obtain v where v: "find (\<lambda>s. s_id s = skillId x) (skills d) = Some v"
    and o: "s_ownerId v = toId x \<and> toId x \<noteq> fromId x"
    by (cases "skill_findUnique d (skillId x)") (simp_all add: skill_findUnique_def)
  from v have "skill_findUnique d' (skillId x) = Some v"
    by (simp add: skill_findUnique_def assms(3) find_app)
  with o show "case skill_findUnique d' (skillId x) of None \<Rightarrow> False
      | Some v \<Rightarrow> s_ownerId v = toId x \<and> toId x \<noteq> fromId x"
    by simp
qed

lemma skill_create_tables:
  "skill_create d now title description path owner = Inr (sk, d') \<Longrightarrow>
   requests d' = requests d \<and> permissions d' = permissions d \<and> wants d' = wants d \<and>
   skills d' = skills d @ [sk]"
  by (cases title) (auto simp: skill_create_def Let_def)

lemma want_create_tables:
  "want_create d now title description owner = Inr (w, d') \<Longrightarrow>
   requests d' = requests d \<and> permissions d' = permissions d \<and> skills d' = skills d \<and>
   wants d' = wants d @ [w]"
  by (cases title) (auto simp: want_create_def Let_def)

lemma create_skill_tables:
  "requests (snd (create_skill d now u title description file)) = requests d \<and>
   permissions (snd (create_skill d now u title description file)) = permissions d \<and>
   (\<exists>sks. skills (snd (create_skill d now u title description file)) = skills d @ sks)"
proof (cases "file")
  case None
  then show ?thesis by (simp add: create_skill_def)
next
  case (Some filename)
  show ?thesis
  proof (cases "skill_create d now title description filename u")
    case (Inl e)
    with Some show ?thesis by (simp add: create_skill_def)
  next
    case (Inr r)
    obtain sk d' where r: "r = (sk, d')" by (cases r)
    from skill_create_tables [OF Inr [unfolded r]] Some Inr r show ?thesis
      by (simp add: create_skill_def)
  qed
qed

lemma create_want_tables:
  "requests (snd (create_want d now u title description)) = requests d \<and>
   permissions (snd (create_want d now u title description)) = permissions d \<and>
   skills (snd (create_want d now u title description)) = skills d"
proof (cases "want_create d now title description u")
  case (Inl e)
  then show ?thesis by (simp add: create_want_def)
next
  case (Inr r)
  obtain w d' where r: "r = (w, d')" by (cases r)
  from want_create_tables [OF Inr [unfolded r]] Inr r show ?thesis
    by (simp add: create_want_def)
qed

lemma invariants_create_skill:
  assumes "pending_unique d \<and> requests_refer d \<and> permission_key_unique d"
  shows "pending_unique (snd (create_skill d now u title description file)) \<and>
         requests_refer (snd (create_skill d now u title description file)) \<and>
         permission_key_unique (snd (create_skill d now u title description file))"
proof -
  let ?d = "snd (create_skill d now u title description file)"
  note t = create_skill_tables [of d now u title description "file"]
  from t have r: "requests ?d = requests d" by (rule conjunct1)
  from t have p: "permissions ?d = permissions d" by (rule conjunct1 [OF conjunct2])
  from t have "\<exists>sks. skills ?d = skills d @ sks" by (rule conjunct2 [OF conjunct2])
  then obtain sks where s: "skills ?d = skills d @ sks" by (rule exE)
  from assms have "requests_refer d" by simp
  then have "requests_refer ?d" using r s by (rule requests_refer_more_skills)
  moreover from assms have "pending_unique ?d" by (simp only: pending_unique_same [OF r])
  moreover from assms have "permission_key_unique ?d"
    by (simp only: permission_key_unique_same [OF p])
  ultimately show ?thesis by simp
qed

lemma invariants_create_want:
  assumes "pending_unique d \<and> requests_refer d \<and> permission_key_unique d"
  shows "pending_unique (snd (create_want d now u title description)) \<and>
         requests_refer (snd (create_want d now u title description)) \<and>
         permission_key_unique (snd (create_want d now u title description))"
proof -
  let ?d = "snd (create_want d now u title description)"
  note t = create_want_tables [of d now u title description]
  from t have r: "requests ?d = requests d" by (rule conjunct1)
  from t have p: "permissions ?d = permissions d" by (rule conjunct1 [OF conjunct2])
  from t have "skills ?d = skills d" by (rule conjunct2 [OF conjunct2])
  then have s: "skills ?d = skills d @ []" by simp
  from assms have "requests_refer d" by simp
  then have "requests_refer ?d" using r s by (rule requests_refer_more_skills)
  moreover from assms have "pending_unique ?d" by (simp only: pending_unique_same [OF r])
  moreover from assms have "permission_key_unique ?d"
    by (simp only: permission_key_unique_same [OF p])
  ultimately show ?thesis by simp
qed

lemma invariants_create_request:
  assumes "pending_unique d \<and> requests_refer d \<and> permission_key_unique d"
  shows "pending_unique (snd (create_request d now u s)) \<and>
         requests_refer (snd (create_request d now u s)) \<and>
         permission_key_unique (snd (create_request d now u s))"
proof (cases "\<exists>r. fst (create_request d now u s) = Reply r")
  case False
  then have "snd (create_request d now u s) = d"
    by (auto simp: create_request_def Let_def split: option.splits)
  with assms show ?thesis by simp
next
  case True
  then obtain v where v: "skill_findUnique d s = Some v" and o: "s_ownerId v \<noteq> u"
    and n: "request_findFirst_pending d u s = None"
    by (auto simp: create_request_def Let_def split: option.splits if_splits)
  let ?r = "\<lparr>r_id = next_id (map r_id (requests d)), fromId = u, toId = s_ownerId v,
             skillId = s, status = ''pending'', r_createdAt = now\<rparr>"
  have e: "snd (create_request d now u s) = d\<lparr>requests := requests d @ [?r]\<rparr>"
    using create_request_ok [OF v o n] by simp
  from n have np: "\<forall>x \<in> set (requests d). \<not> (fromId x = u \<and> skillId x = s \<and> status x = ''pending'')"
    by (simp add: pending_find_None)
  have 1: "pending_unique (d\<lparr>requests := requests d @ [?r]\<rparr>)"
    unfolding pending_unique_def
  proof (intro ballI impI)
    fix a b
    assume a: "a \<in> set (requests (d\<lparr>requests := requests d @ [?r]\<rparr>))"
      and b: "b \<in> set (requests (d\<lparr>requests := requests d @ [?r]\<rparr>))"
      and c: "status a = ''pending'' \<and> status b = ''pending'' \<and>
              fromId a = fromId b \<and> skillId a = skillId b"
    from a have a': "a \<in> set (requests d) \<or> a = ?r" by auto
    from b have b': "b \<in> set (requests d) \<or> b = ?r" by auto
    show "r_id a = r_id b"
    proof (cases "a = ?r")
      case True
      show ?thesis
      proof (cases "b = ?r")
        case True
        with \<open>a = ?r\<close> show ?thesis by simp
      next
        case False
        with b' have "b \<in> set (requests d)" by simp
        with np have "\<not> (fromId b = u \<and> skillId b = s \<and> status b = ''pending'')" by simp
        with c True show ?thesis by simp
      qed
    next
      case False
      with a' have ain: "a \<in> set (requests d)" by simp
      show ?thesis
      proof (cases "b = ?r")
        case True
        from ain np have "\<not> (fromId a = u \<and> skillId a = s \<and> status a = ''pending'')" by simp
        with c True show ?thesis by simp
      next
        case False
        with b' have bin: "b \<in> set (requests d)" by simp
        from assms have pu: "pending_unique d" by simp
        from c show ?thesis
          by (intro pending_uniqueD [OF pu ain bin]) simp_all
      qed
    qed
  qed
  have 2: "requests_refer (d\<lparr>requests := requests d @ [?r]\<rparr>)"
    using assms v o unfolding requests_refer_def by (auto simp: skill_findUnique_def)
  have 3: "permission_key_unique (d\<lparr>requests := requests d @ [?r]\<rparr>)"
    using assms by (simp add: permission_key_unique_def)
  from 1 2 3 show ?thesis by (simp only: e) 
qed

lemma invariants_accept:
  assumes "pending_unique d \<and> requests_refer d \<and> permission_key_unique d"
  shows "pending_unique (snd (accept_request d i u)) \<and>
         requests_refer (snd (accept_request d i u)) \<and>
         permission_key_unique (snd (accept_request d i u))"
proof (cases "\<exists>r. request_findUnique d i = Some r \<and> toId r = u")
  case False
  then have "snd (accept_request d i u) = d"
    by (auto simp: accept_request_def split: option.splits)
  with assms show ?thesis by simp
next
  case True
  then obtain r where r: "request_findUnique d i = Some r" and u: "u = toId r" by auto
  let ?d = "snd (accept_request d i u)"
  have e: "skills ?d = skills d" "requests ?d = request_update i ''accepted'' (requests d)"
    "permissions ?d = permission_upsert (fromId r) (skillId r) (permissions d)"
    using r by (simp_all add: u accept_request_ok)
  have "pending_unique ?d"
    using assms e(2) by (intro pending_unique_update [of d "''accepted''" ?d i]) simp_all
  moreover have "requests_refer ?d"
    using assms e(1,2) by (intro requests_refer_update [of d ?d i "''accepted''"]) simp_all
  moreover have "permission_key_unique ?d"
    using assms by (simp add: permission_key_unique_def e(3) upsert_distinct)
  ultimately show ?thesis by simp
qed

lemma invariants_decline:
  assumes "pending_unique d \<and> requests_refer d \<and> permission_key_unique d"
  shows "pending_unique (snd (decline_request d i u)) \<and>
         requests_refer (snd (decline_request d i u)) \<and>
         permission_key_unique (snd (decline_request d i u))"
proof (cases "\<exists>r. request_findUnique d i = Some r \<and> toId r = u")
  case False
  then have "snd (decline_request d i u) = d"
    by (auto simp: decline_request_def split: option.splits)
  with assms show ?thesis by simp
next
  case True
  then obtain r where r: "request_findUnique d i = Some r" and u: "u = toId r" by auto
  let ?d = "snd (decline_request d i u)"
  have e: "skills ?d = skills d" "requests ?d = request_update i ''declined'' (requests d)"
    "permissions ?d = permissions d"
    using r by (simp_all add: u decline_request_ok)
  have "pending_unique ?d"
    using assms e(2) by (intro pending_unique_update [of d "''declined''" ?d i]) simp_all
  moreover have "requests_refer ?d"
    using assms e(1,2) by (intro requests_refer_update [of d ?d i "''declined''"]) simp_all
  moreover have "permission_key_unique ?d"
    using assms by (simp add: permission_key_unique_def e(3))
  ultimately show ?thesis by simp
qed

lemma reachable_invariants:
  "reachable d \<Longrightarrow> pending_unique d \<and> requests_refer d \<and> permission_key_unique d"
proof (induction rule: reachable.induct)
  case start
  show ?case
    by (simp add: empty_db_def pending_unique_def requests_refer_def permission_key_unique_def)
next
  case (skill d now u title description f)
  from skill.IH show ?case by (rule invariants_create_skill)
next
  case (want d now u title description)
  from want.IH show ?case by (rule invariants_create_want)
next
  case (request d now u vid)
  from request.IH show ?case by (rule invariants_create_request)
next
  case (accept d i u)
  from accept.IH show ?case by (rule invariants_accept)
next
  case (decline d i u)
  from decline.IH show ?case by (rule invariants_decline)
qed

subsection \<open>Creating a request\<close>

text \<open>
  Claim C1. For every requester \<open>u\<close> and skill identifier \<open>s\<close>: creating a request
  answers 404 "Video not found" when no skill has identifier \<open>s\<close>; 400 "Cannot request
  your own video" when \<open>u\<close> owns the skill; 400 "Request already pending" when \<open>u\<close>
  does not own it and a pending request for (\<open>u\<close>, \<open>s\<close>) exists; and otherwise
  stores and returns a new request with status "pending" whose \<open>toId\<close> is the skill's
  owner. The three failures leave the database as it is. In every reachable state,
  while a request for (\<open>u\<close>, \<open>s\<close>) is pending a second create is refused, and once
  its \<open>toId\<close> has accepted or declined it a new create for (\<open>u\<close>, \<open>s\<close>) succeeds.
\<close>

theorem create_request_outcomes:
  "(s \<notin> s_id ` set (skills d) \<longrightarrow>
      create_request d now u s = (Fail 404 ''Video not found'', d)) \<and>
   (\<forall>v. skill_findUnique d s = Some v \<longrightarrow>
      (s_ownerId v = u \<longrightarrow>
         create_request d now u s = (Fail 400 ''Cannot request your own video'', d)) \<and>
      (s_ownerId v \<noteq> u \<and>
       (\<exists>r \<in> set (requests d). fromId r = u \<and> skillId r = s \<and> status r = ''pending'') \<longrightarrow>
         create_request d now u s = (Fail 400 ''Request already pending'', d)) \<and>
      (s_ownerId v \<noteq> u \<and>
       \<not> (\<exists>r \<in> set (requests d). fromId r = u \<and> skillId r = s \<and> status r = ''pending'') \<longrightarrow>
         (\<exists>r. create_request d now u s = (Reply r, d\<lparr>requests := requests d @ [r]\<rparr>) \<and>
              status r = ''pending'' \<and> toId r = s_ownerId v \<and> fromId r = u \<and>
              skillId r = s \<and> r_id r \<notin> r_id ` set (requests d)))) \<and>
   (\<forall>r. reachable d \<and> request_findUnique d i = Some r \<and> status r = ''pending'' \<longrightarrow>
      create_request d now (fromId r) (skillId r) = (Fail 400 ''Request already pending'', d) \<and>
      (\<exists>r'. fst (create_request (snd (accept_request d i (toId r))) now (fromId r) (skillId r))
               = Reply r' \<and>
            status r' = ''pending'' \<and> toId r' = toId r \<and> fromId r' = fromId r \<and>
            skillId r' = skillId r) \<and>
      (\<exists>r'. fst (create_request (snd (decline_request d i (toId r))) now (fromId r) (skillId r))
               = Reply r' \<and>
            status r' = ''pending'' \<and> toId r' = toId r \<and> fromId r' = fromId r \<and>
            skillId r' = skillId r))"
proof (intro conjI allI impI)
  assume "s \<notin> s_id ` set (skills d)"
  then have "skill_findUnique d s = None" by (simp add: skill_find_None)
  then show "create_request d now u s = (Fail 404 ''Video not found'', d)"
    by (simp add: create_request_def)
next
  fix v assume "skill_findUnique d s = Some v" "s_ownerId v = u"
  then show "create_request d now u s = (Fail 400 ''Cannot request your own video'', d)"
    by (simp add: create_request_def)
next
  fix v assume v: "skill_findUnique d s = Some v"
    and "s_ownerId v \<noteq> u \<and>
       (\<exists>r \<in> set (requests d). fromId r = u \<and> skillId r = s \<and> status r = ''pending'')"
  then have "s_ownerId v \<noteq> u" and "request_findFirst_pending d u s \<noteq> None"
    by (simp_all add: pending_find_None)
  with v show "create_request d now u s = (Fail 400 ''Request already pending'', d)"
    by (auto simp: create_request_def)
next
  fix v assume v: "skill_findUnique d s = Some v"
    and "s_ownerId v \<noteq> u \<and>
       \<not> (\<exists>r \<in> set (requests d). fromId r = u \<and> skillId r = s \<and> status r = ''pending'')"
  then have o: "s_ownerId v \<noteq> u" and n: "request_findFirst_pending d u s = None"
    by (simp_all add: pending_find_None)
  show "\<exists>r. create_request d now u s = (Reply r, d\<lparr>requests := requests d @ [r]\<rparr>) \<and>
              status r = ''pending'' \<and> toId r = s_ownerId v \<and> fromId r = u \<and>
              skillId r = s \<and> r_id r \<notin> r_id ` set (requests d)"
    using create_request_ok [OF v o n] next_id_fresh [of "map r_id (requests d)"] by simp
next
  fix r assume a: "reachable d \<and> request_findUnique d i = Some r \<and> status r = ''pending''"
  then have f: "request_findUnique d i = Some r" and p: "status r = ''pending''"
    and rr: "requests_refer d"
    using reachable_invariants [of d] by simp_all
  from f have rin: "r \<in> set (requests d)"
    using find_SomeD [of "\<lambda>r. r_id r = i" "requests d" r]
    by (simp add: request_findUnique_def)
  with rr obtain v where v: "skill_findUnique d (skillId r) = Some v"
    and o: "s_ownerId v = toId r" "toId r \<noteq> fromId r"
    unfolding requests_refer_def by (fastforce split: option.splits)
  from rin p have "request_findFirst_pending d (fromId r) (skillId r) \<noteq> None"
    by (auto simp: pending_find_None)
  with v o
  show "create_request d now (fromId r) (skillId r) = (Fail 400 ''Request already pending'', d)"
    by (auto simp: create_request_def)
next
  fix r assume a: "reachable d \<and> request_findUnique d i = Some r \<and> status r = ''pending''"
  then have pu: "pending_unique d" and rr: "requests_refer d"
    and f: "request_findUnique d i = Some r" and p: "status r = ''pending''"
    using reachable_invariants [of d] by simp_all
  let ?d = "snd (accept_request d i (toId r))"
  have d': "skills ?d = skills d" "requests ?d = request_update i ''accepted'' (requests d)"
    using f by (simp_all add: accept_request_ok)
  from create_after_resolve [OF pu rr f p _ d', of now]
  show "\<exists>r'. fst (create_request ?d now (fromId r) (skillId r)) = Reply r' \<and>
            status r' = ''pending'' \<and> toId r' = toId r \<and> fromId r' = fromId r \<and>
            skillId r' = skillId r"
    by auto
next
  fix r assume a: "reachable d \<and> request_findUnique d i = Some r \<and> status r = ''pending''"
  then have pu: "pending_unique d" and rr: "requests_refer d"
    and f: "request_findUnique d i = Some r" and p: "status r = ''pending''"
    using reachable_invariants [of d] by simp_all
  let ?d = "snd (decline_request d i (toId r))"
  have d': "skills ?d = skills d" "requests ?d = request_update i ''declined'' (requests d)"
    using f by (simp_all add: decline_request_ok)
  from create_after_resolve [OF pu rr f p _ d', of now]
  show "\<exists>r'. fst (create_request ?d now (fromId r) (skillId r)) = Reply r' \<and>
            status r' = ''pending'' \<and> toId r' = toId r \<and> fromId r' = fromId r \<and>
            skillId r' = skillId r"
    by auto
qed

theorem create_request_outcomes_witness:
  "(7::int) \<notin> s_id ` set (skills ex_pending) \<and>
   create_request ex_pending 20 1 7 = (Fail 404 ''Video not found'', ex_pending) \<and>
   skill_findUnique ex_pending 1 = Some ex_video \<and> s_ownerId ex_video = 2 \<and>
   create_request ex_pending 20 2 1 = (Fail 400 ''Cannot request your own video'', ex_pending) \<and>
   (\<exists>r \<in> set (requests ex_pending). fromId r = 1 \<and> skillId r = 1 \<and> status r = ''pending'') \<and>
   create_request ex_pending 20 1 1 = (Fail 400 ''Request already pending'', ex_pending) \<and>
   \<not> (\<exists>r \<in> set (requests ex_pending). fromId r = 3 \<and> skillId r = 1 \<and> status r = ''pending'') \<and>
   (\<exists>r. create_request ex_pending 20 3 1 =
           (Reply r, ex_pending\<lparr>requests := requests ex_pending @ [r]\<rparr>) \<and>
        status r = ''pending'' \<and> toId r = 2) \<and>
   reachable ex_pending \<and>
   request_findUnique ex_pending 1 = Some ex_request \<and> status ex_request = ''pending'' \<and>
   (\<exists>r'. fst (create_request ex_accepted 20 1 1) = Reply r' \<and> status r' = ''pending'' \<and>
         toId r' = 2) \<and>
   (\<exists>r'. fst (create_request (snd (decline_request ex_pending 1 2)) 20 1 1) = Reply r' \<and>
         status r' = ''pending'' \<and> toId r' = 2)"
proof -
  have h1: "(7::int) \<notin> s_id ` set (skills ex_pending)" by code_simp
  have h2: "skill_findUnique ex_pending 1 = Some ex_video" by code_simp
  have h3: "s_ownerId ex_video = 2" by (simp add: ex_video_def)
  have n1: "s_ownerId ex_video \<noteq> 1" and n3: "s_ownerId ex_video \<noteq> 3"
    by (simp_all add: ex_video_def)
  have h4: "\<exists>r \<in> set (requests ex_pending). fromId r = 1 \<and> skillId r = 1 \<and> status r = ''pending''"
    by code_simp
  have h5: "\<not> (\<exists>r \<in> set (requests ex_pending). fromId r = 3 \<and> skillId r = 1 \<and> status r = ''pending'')"
    by code_simp
  have h6: "reachable ex_pending"
    unfolding ex_pending_def ex_skill_def ex_want_def by (intro reachable.intros)
  have h8: "request_findUnique ex_pending 1 = Some ex_request" by code_simp
  have h9: "status ex_request = ''pending''" by (simp add: ex_request_def)
  have f: "toId ex_request = 2" "fromId ex_request = 1" "skillId ex_request = 1"
    by (simp_all add: ex_request_def)
  note t1 = create_request_outcomes [where s = 7 and d = ex_pending and now = 20 and u = 1]
  note t2 = create_request_outcomes [where s = 1 and d = ex_pending and now = 20 and u = 2]
  note t3 = create_request_outcomes
    [where s = 1 and d = ex_pending and now = 20 and u = 1 and i = 1]
  note t4 = create_request_outcomes [where s = 1 and d = ex_pending and now = 20 and u = 3]
  have c1: "create_request ex_pending 20 1 7 = (Fail 404 ''Video not found'', ex_pending)"
    by (rule mp [OF conjunct1 [OF t1] h1])
  note a2 = mp [OF spec [OF conjunct1 [OF conjunct2 [OF t2]]] h2]
  have c2: "create_request ex_pending 20 2 1 =
      (Fail 400 ''Cannot request your own video'', ex_pending)"
    by (rule mp [OF conjunct1 [OF a2] h3])
  note a3 = mp [OF spec [OF conjunct1 [OF conjunct2 [OF t3]]] h2]
  have c3: "create_request ex_pending 20 1 1 =
      (Fail 400 ''Request already pending'', ex_pending)"
    by (rule mp [OF conjunct1 [OF conjunct2 [OF a3]] conjI [OF n1 h4]])
  note a4 = mp [OF spec [OF conjunct1 [OF conjunct2 [OF t4]]] h2]
  note b4 = mp [OF conjunct2 [OF conjunct2 [OF a4]] conjI [OF n3 h5]]
  from b4 have c4: "\<exists>r. create_request ex_pending 20 3 1 =
           (Reply r, ex_pending\<lparr>requests := requests ex_pending @ [r]\<rparr>) \<and>
        status r = ''pending'' \<and> toId r = 2"
    by (elim exE conjE, intro exI conjI) (simp_all add: h3)
  note a5 = mp [OF spec [OF conjunct2 [OF conjunct2 [OF t3]]]
                conjI [OF h6 conjI [OF h8 h9]], unfolded f]
  from conjunct1 [OF conjunct2 [OF a5]]
  have c5: "\<exists>r'. fst (create_request ex_accepted 20 1 1) = Reply r' \<and> status r' = ''pending'' \<and>
         toId r' = 2"
    unfolding ex_accepted_def by (elim exE conjE, intro exI conjI) simp_all
  from conjunct2 [OF conjunct2 [OF a5]]
  have c6: "\<exists>r'. fst (create_request (snd (decline_request ex_pending 1 2)) 20 1 1) = Reply r' \<and>
         status r' = ''pending'' \<and> toId r' = 2"
    by (elim exE conjE, intro exI conjI) simp_all
  show ?thesis
    by (intro conjI) (rule h1 h2 h3 h4 h5 h6 h8 h9 c1 c2 c3 c4 c5 c6)+
qed

subsection \<open>Accept and Decline\<close>



text \<open>
  Claim C3. Accepting a request is idempotent with respect to Permission. In a database
  whose Permission key is unique, for every \<open>n \<ge> 1\<close>, accepting an existing request
  \<open>n\<close> times as its \<open>toId\<close> succeeds every time and leaves exactly one Permission row
  for (\<open>fromId\<close>, \<open>skillId\<close>); the Permission table is the one a single Accept
  produces, and it is the table from before when the row existed already.
\<close>

theorem accept_idempotent_permission:
  assumes "permission_key_unique d" and "request_findUnique d i = Some r" and "0 < n"
  shows "fst (accept_times n d i (toId r)) = replicate n (Reply (r\<lparr>status := ''accepted''\<rparr>)) \<and>
         length (filter (\<lambda>p. userId p = fromId r \<and> videoId p = skillId r)
                   (permissions (snd (accept_times n d i (toId r))))) = 1 \<and>
         permission_key_unique (snd (accept_times n d i (toId r))) \<and>
         permissions (snd (accept_times n d i (toId r))) =
           permissions (snd (accept_request d i (toId r))) \<and>
         (permission_findUnique d (fromId r) (skillId r) \<noteq> None \<longrightarrow>
            permissions (snd (accept_times n d i (toId r))) = permissions d)"
proof -
  from \<open>0 < n\<close> obtain m where n: "n = Suc m" by (cases n) auto
  have t: "accept_times n d i (toId r) =
             (replicate n (Reply (r\<lparr>status := ''accepted''\<rparr>)), snd (accept_request d i (toId r)))"
    unfolding n by (rule accept_times_Suc [OF assms(2)])
  have p: "permissions (snd (accept_request d i (toId r))) =
             permission_upsert (fromId r) (skillId r) (permissions d)"
    using assms(2) by (simp add: accept_request_ok)
  show ?thesis
    using assms(1)
    by (simp add: t p upsert_count upsert_distinct upsert_existing
          permission_key_unique_def permission_findUnique_def)
qed

theorem accept_idempotent_permission_witness:
  "permission_key_unique ex_pending \<and> request_findUnique ex_pending 1 = Some ex_request \<and>
   (0::nat) < 3 \<and>
   fst (accept_times 3 ex_pending 1 2) = replicate 3 (Reply (ex_request\<lparr>status := ''accepted''\<rparr>)) \<and>
   length (filter (\<lambda>p. userId p = 1 \<and> videoId p = 1)
             (permissions (snd (accept_times 3 ex_pending 1 2)))) = 1"
proof -
  have a: "permission_key_unique ex_pending" by code_simp
  have b: "request_findUnique ex_pending 1 = Some ex_request" by code_simp
  have c: "(0::nat) < 3" by simp
  have t: "toId ex_request = 2" "fromId ex_request = 1" "skillId ex_request = 1"
    by (simp_all add: ex_request_def)
  note w = accept_idempotent_permission [OF a b c, unfolded t]
  from w have "fst (accept_times 3 ex_pending 1 2) =
      replicate 3 (Reply (ex_request\<lparr>status := ''accepted''\<rparr>))"
    by (rule conjunct1)
  moreover from w have "length (filter (\<lambda>p. userId p = 1 \<and> videoId p = 1)
      (permissions (snd (accept_times 3 ex_pending 1 2)))) = 1"
    by (rule conjunct1 [OF conjunct2])
  ultimately show ?thesis using a b c by (intro conjI)
qed

text \<open>
  Claim C6. Accept and Decline do not look at the request's current status. For every
  request that is already accepted or declined, a further Accept by its \<open>toId\<close> succeeds,
  stores and returns the request with status "accepted" and runs the Permission upsert
  again; a further Decline by its \<open>toId\<close> succeeds, stores and returns the request with
  status "declined".
\<close>

theorem resolved_request_is_overwritten:
  "request_findUnique d i = Some r \<and> (status r = ''accepted'' \<or> status r = ''declined'') \<longrightarrow>
     accept_request d i (toId r) =
       (Reply (r\<lparr>status := ''accepted''\<rparr>),
        d\<lparr>requests := request_update i ''accepted'' (requests d),
          permissions := permission_upsert (fromId r) (skillId r) (permissions d)\<rparr>) \<and>
     request_findUnique (snd (accept_request d i (toId r))) i = Some (r\<lparr>status := ''accepted''\<rparr>) \<and>
     decline_request d i (toId r) =
       (Reply (r\<lparr>status := ''declined''\<rparr>),
        d\<lparr>requests := request_update i ''declined'' (requests d)\<rparr>) \<and>
     request_findUnique (snd (decline_request d i (toId r))) i = Some (r\<lparr>status := ''declined''\<rparr>)"
  by (simp add: accept_request_ok decline_request_ok request_findUnique_def find_request_update)

theorem resolved_request_is_overwritten_witness:
  "request_findUnique ex_accepted 1 = Some (ex_request\<lparr>status := ''accepted''\<rparr>) \<and>
   fst (decline_request ex_accepted 1 2) = Reply (ex_request\<lparr>status := ''declined''\<rparr>) \<and>
   request_findUnique ex_declined 1 = Some (ex_request\<lparr>status := ''declined''\<rparr>) \<and>
   fst (accept_request ex_declined 1 2) = Reply (ex_request\<lparr>status := ''accepted''\<rparr>) \<and>
   permissions (snd (accept_request ex_declined 1 2)) = permissions ex_accepted"
proof -
  have a: "request_findUnique ex_accepted 1 = Some (ex_request\<lparr>status := ''accepted''\<rparr>)"
    by code_simp
  have b: "request_findUnique ex_declined 1 = Some (ex_request\<lparr>status := ''declined''\<rparr>)"
    by code_simp
  have c: "permissions (snd (accept_request ex_declined 1 2)) = permissions ex_accepted"
    by code_simp
  show ?thesis
    using resolved_request_is_overwritten [of ex_accepted 1 "ex_request\<lparr>status := ''accepted''\<rparr>"]
      resolved_request_is_overwritten [of ex_declined 1 "ex_request\<lparr>status := ''declined''\<rparr>"]
      a b c
    by (simp add: ex_request_def)
qed

text \<open>
  Claim C7. Decline has no Permission side effect. Whenever Decline succeeds, the
  Permission table after it is the table before it, skills and wants are untouched, and
  the request table differs only in the status of the row with the declined identifier.
\<close>

theorem decline_frame:
  "decline_request d i u = (Reply r', d') \<longrightarrow>
     permissions d' = permissions d \<and> skills d' = skills d \<and> wants d' = wants d \<and>
     length (requests d') = length (requests d) \<and>
     (\<forall>k < length (requests d).
        requests d' ! k =
          (if r_id (requests d ! k) = i then (requests d ! k)\<lparr>status := ''declined''\<rparr>
           else requests d ! k))"
  by (auto simp: decline_request_def request_update_def split: option.splits if_splits)

theorem decline_frame_witness:
  "decline_request ex_accepted 1 2 = (Reply (ex_request\<lparr>status := ''declined''\<rparr>), ex_declined) \<and>
   permissions ex_declined = permissions ex_accepted \<and>
   permissions ex_accepted = [\<lparr>p_id = 1, userId = 1, videoId = 1\<rparr>] \<and>
   requests ex_declined = [ex_request\<lparr>status := ''declined''\<rparr>]"
proof -
  have a: "decline_request ex_accepted 1 2 = (Reply (ex_request\<lparr>status := ''declined''\<rparr>), ex_declined)"
    by code_simp
  have b: "permissions ex_accepted = [\<lparr>p_id = 1, userId = 1, videoId = 1\<rparr>]" by code_simp
  have c: "requests ex_declined = [ex_request\<lparr>status := ''declined''\<rparr>]" by code_simp
  from decline_frame [of ex_accepted 1 2 "ex_request\<lparr>status := ''declined''\<rparr>" ex_declined] a
  have "permissions ex_declined = permissions ex_accepted" by blast
  with a b c show ?thesis by blast
qed

subsection \<open>Listing requests\<close>

text \<open>
  Claim C9. Listing requests filters by \<open>fromId\<close> = caller when the type parameter is
  exactly the string "outgoing", and by \<open>toId\<close> = caller for every other value, absent
  and unrecognised values included. The result holds each selected row once, newest first.
\<close>

theorem get_requests_direction:
  "(type = Some ''outgoing'' \<longrightarrow>
      get_requests d u type = orderBy_desc r_createdAt (filter (\<lambda>r. fromId r = u) (requests d))) \<and>
   (type \<noteq> Some ''outgoing'' \<longrightarrow>
      get_requests d u type = orderBy_desc r_createdAt (filter (\<lambda>r. toId r = u) (requests d))) \<and>
   mset (get_requests d u type) =
     mset (filter (\<lambda>r. if type = Some ''outgoing'' then fromId r = u else toId r = u) (requests d)) \<and>
   sorted_wrt (\<lambda>a b. r_createdAt b \<le> r_createdAt a) (get_requests d u type)"
  by (simp add: get_requests_def orderBy_desc_mset orderBy_desc_sorted)

theorem get_requests_direction_witness:
  "get_requests ex_pending 1 (Some ''outgoing'') = [ex_request] \<and>
   get_requests ex_pending 2 (Some ''outgoing'') = [] \<and>
   None \<noteq> Some ''outgoing'' \<and> get_requests ex_pending 2 None = [ex_request] \<and>
   Some ''Outgoing'' \<noteq> Some ''outgoing'' \<and> get_requests ex_pending 1 (Some ''Outgoing'') = [] \<and>
   Some ''incoming'' \<noteq> Some ''outgoing'' \<and> get_requests ex_pending 2 (Some ''incoming'') = [ex_request]"
proof -
  have r: "requests ex_pending = [ex_request]" by code_simp
  have o: "\<And>x. orderBy_desc r_createdAt [x] = [x]"
    "orderBy_desc r_createdAt ([]::request list) = []"
    by (simp_all add: orderBy_desc_def)
  show ?thesis
    using get_requests_direction [of "Some ''outgoing''" ex_pending 1]
      get_requests_direction [of "Some ''outgoing''" ex_pending 2]
      get_requests_direction [of None ex_pending 2]
      get_requests_direction [of "Some ''Outgoing''" ex_pending 1]
      get_requests_direction [of "Some ''incoming''" ex_pending 2]
    by (simp add: r o ex_request_def)
qed

subsection \<open>Matcher\<close>

text \<open>
  Claim C5. The matcher returns the empty list for a user who owns no wants. In general
  its result holds, each once, exactly the skills not owned by the user whose title
  contains, ignoring case, the title of one of the user's wants, ordered by creation time
  descending.
\<close>

theorem matches_spec:
  "(\<not> (\<exists>w \<in> set (wants d). w_ownerId w = u) \<longrightarrow> matches d u = []) \<and>
   mset (matches d u) =
     mset (filter (\<lambda>s. s_ownerId s \<noteq> u \<and>
                       (\<exists>w \<in> set (wants d). w_ownerId w = u \<and>
                          (\<exists>ps ss. map lower_char (s_title s) =
                                     ps @ map lower_char (w_title w) @ ss)))
             (skills d)) \<and>
   sorted_wrt (\<lambda>a b. s_createdAt b \<le> s_createdAt a) (matches d u)"
proof (cases "filter (\<lambda>w. w_ownerId w = u) (wants d) = []")
  case True
  then have none: "\<not> (\<exists>w \<in> set (wants d). w_ownerId w = u)"
    by (auto simp: filter_empty_conv)
  have m: "matches d u = []" using True by (simp add: matches_def)
  from none have "filter (\<lambda>s. s_ownerId s \<noteq> u \<and>
                       (\<exists>w \<in> set (wants d). w_ownerId w = u \<and>
                          (\<exists>ps ss. map lower_char (s_title s) =
                                     ps @ map lower_char (w_title w) @ ss)))
             (skills d) = []"
    by (auto simp: filter_empty_conv)
  with m show ?thesis by simp
next
  case False
  then have some: "\<exists>w \<in> set (wants d). w_ownerId w = u"
    by (auto simp: filter_empty_conv)
  have m: "matches d u = orderBy_desc s_createdAt
             (filter (\<lambda>s. s_ownerId s \<noteq> u \<and>
                          list_ex (\<lambda>w. contains_insensitive (s_title s) (w_title w))
                            (filter (\<lambda>w. w_ownerId w = u) (wants d)))
                (skills d))"
    using False by (simp add: matches_def)
  have p: "(\<lambda>s. s_ownerId s \<noteq> u \<and>
                list_ex (\<lambda>w. contains_insensitive (s_title s) (w_title w))
                  (filter (\<lambda>w. w_ownerId w = u) (wants d))) =
           (\<lambda>s. s_ownerId s \<noteq> u \<and>
                       (\<exists>w \<in> set (wants d). w_ownerId w = u \<and>
                          (\<exists>ps ss. map lower_char (s_title s) =
                                     ps @ map lower_char (w_title w) @ ss)))"
    by (auto simp: list_ex_iff contains_insensitive_def contains_str_iff)
  show ?thesis
    using some by (simp only: m p orderBy_desc_mset orderBy_desc_sorted) simp
qed

theorem matches_spec_witness:
  "\<not> (\<exists>w \<in> set (wants ex_matcher). w_ownerId w = 3) \<and> matches ex_matcher 3 = [] \<and>
   (\<exists>w \<in> set (wants ex_matcher). w_ownerId w = 1) \<and>
   map s_id (matches ex_matcher 1) = [3, 1] \<and>
   mset (matches ex_matcher 1) =
     mset (filter (\<lambda>s. s_ownerId s \<noteq> 1 \<and>
                       (\<exists>w \<in> set (wants ex_matcher). w_ownerId w = 1 \<and>
                          (\<exists>ps ss. map lower_char (s_title s) =
                                     ps @ map lower_char (w_title w) @ ss)))
             (skills ex_matcher))"
proof -
  have a: "\<not> (\<exists>w \<in> set (wants ex_matcher). w_ownerId w = 3)" by code_simp
  have b: "\<exists>w \<in> set (wants ex_matcher). w_ownerId w = 1" by code_simp
  have c: "map s_id (matches ex_matcher 1) = [3, 1]" by code_simp
  from matches_spec [of ex_matcher 3] a have d: "matches ex_matcher 3 = []" by blast
  from matches_spec [of ex_matcher 1] have e: "mset (matches ex_matcher 1) =
     mset (filter (\<lambda>s. s_ownerId s \<noteq> 1 \<and>
                       (\<exists>w \<in> set (wants ex_matcher). w_ownerId w = 1 \<and>
                          (\<exists>ps ss. map lower_char (s_title s) =
                                     ps @ map lower_char (w_title w) @ ss)))
             (skills ex_matcher))" by blast
  from a b c d e show ?thesis by blast
qed

subsection \<open>Catalog\<close>

text \<open>
  Claim C8 as stated fails: an empty title is not rejected. Creating a want with the
  empty title stores and returns the want, and so does creating a skill with the empty
  title and an uploaded file.
\<close>

theorem empty_title_counterexample:
  "create_want empty_db 3 1 (Some []) None =
     (Reply \<lparr>w_id = 1, w_title = [], w_description = None, w_ownerId = 1, w_createdAt = 3\<rparr>,
      empty_db\<lparr>wants := [\<lparr>w_id = 1, w_title = [], w_description = None, w_ownerId = 1,
                            w_createdAt = 3\<rparr>]\<rparr>) \<and>
   create_skill empty_db 5 2 (Some []) None (Some ''v1.mp4'') =
     (Reply \<lparr>s_id = 1, s_title = [], s_description = None, s_videoPath = ''v1.mp4'',
              s_ownerId = 2, s_createdAt = 5\<rparr>,
      empty_db\<lparr>skills := [\<lparr>s_id = 1, s_title = [], s_description = None,
                             s_videoPath = ''v1.mp4'', s_ownerId = 2, s_createdAt = 5\<rparr>]\<rparr>)"
  by (simp add: create_want_def create_skill_def want_create_def skill_create_def empty_db_def
        next_id_def Let_def)

text \<open>
  Claim C8, amended. For every caller, a creation call whose title is missing stores no
  record: creating a skill then answers with status 400, with or without an uploaded
  video, and creating a want does not reply with a want. A creation call whose title is
  the empty string is not refused for its title: creating a want stores and returns a
  want with the empty title, and creating a skill with an uploaded video stores and
  returns a skill with the empty title, each owned by the caller under a fresh
  identifier.
\<close>

theorem catalog_creation:
  "(\<exists>m. create_skill d now u None description file = (Fail 400 m, d)) \<and>
   snd (create_want d now u None description) = d \<and>
   (\<forall>w. fst (create_want d now u None description) \<noteq> Reply w) \<and>
   (\<exists>sk. create_skill d now u (Some []) description (Some f) =
           (Reply sk, d\<lparr>skills := skills d @ [sk]\<rparr>) \<and>
         s_title sk = [] \<and> s_ownerId sk = u \<and> s_videoPath sk = f \<and>
         s_id sk \<notin> s_id ` set (skills d)) \<and>
   (\<exists>w. create_want d now u (Some []) description = (Reply w, d\<lparr>wants := wants d @ [w]\<rparr>) \<and>
         w_title w = [] \<and> w_ownerId w = u \<and> w_id w \<notin> w_id ` set (wants d))"
proof (intro conjI)
  show "\<exists>m. create_skill d now u None description file = (Fail 400 m, d)"
    by (cases "file") (simp_all add: create_skill_def skill_create_def)
  show "snd (create_want d now u None description) = d"
    by (simp add: create_want_def want_create_def)
  show "\<forall>w. fst (create_want d now u None description) \<noteq> Reply w"
    by (simp add: create_want_def want_create_def)
  show "\<exists>sk. create_skill d now u (Some []) description (Some f) =
           (Reply sk, d\<lparr>skills := skills d @ [sk]\<rparr>) \<and>
         s_title sk = [] \<and> s_ownerId sk = u \<and> s_videoPath sk = f \<and>
         s_id sk \<notin> s_id ` set (skills d)"
    using next_id_fresh [of "map s_id (skills d)"]
    by (simp add: create_skill_def skill_create_def Let_def)
  show "\<exists>w. create_want d now u (Some []) description = (Reply w, d\<lparr>wants := wants d @ [w]\<rparr>) \<and>
         w_title w = [] \<and> w_ownerId w = u \<and> w_id w \<notin> w_id ` set (wants d)"
    using next_id_fresh [of "map w_id (wants d)"]
    by (simp add: create_want_def want_create_def Let_def)
qed

subsection \<open>Stream gate\<close>

text \<open>
  Claim C4 as stated fails where the media file is missing. A viewer who neither owns the
  skill nor holds a Permission row is answered 403 "No permission" although the stored
  file does not exist, not NotFound; and the owner of the skill is answered 404
  "File missing", so the owner cannot always stream.
\<close>

theorem stream_missing_file_counterexample:
  "skill_findUnique ex_skill 1 = Some ex_video \<and> s_videoPath ex_video \<notin> ({} :: string set) \<and>
   s_ownerId ex_video = 2 \<and>
   stream ex_skill {} 3 1 = Fail 403 ''No permission'' \<and>
   stream ex_skill {} 2 1 = Fail 404 ''File missing''"
  by (simp add: stream_def ex_skill_def ex_want_def ex_video_def empty_db_def create_skill_def
        create_want_def skill_create_def want_create_def skill_findUnique_def
        permission_findUnique_def next_id_def Let_def)

text \<open>
  Claim C4, amended. The checks run in this order. Streaming answers 404 "Video not
  found" when no skill has the identifier; otherwise 403 "No permission" when the viewer
  neither owns the skill nor holds a Permission row for it, whether or not the file
  exists; otherwise 404 "File missing" when the stored file does not exist; otherwise it
  sends the file. So the owner can stream whenever the file exists, a non-owner without
  a Permission row is refused, and after that viewer's request is accepted the same
  viewer can stream the skill whenever the file exists.
\<close>

theorem stream_gate:
  "(s \<notin> s_id ` set (skills d) \<longrightarrow> stream d files u s = Fail 404 ''Video not found'') \<and>
   (\<forall>v. skill_findUnique d s = Some v \<longrightarrow>
      (s_ownerId v \<noteq> u \<and> \<not> (\<exists>p \<in> set (permissions d). userId p = u \<and> videoId p = s) \<longrightarrow>
         stream d files u s = Fail 403 ''No permission'') \<and>
      (s_ownerId v = u \<or> (\<exists>p \<in> set (permissions d). userId p = u \<and> videoId p = s) \<longrightarrow>
         (s_videoPath v \<notin> files \<longrightarrow> stream d files u s = Fail 404 ''File missing'') \<and>
         (s_videoPath v \<in> files \<longrightarrow> stream d files u s = Reply (s_videoPath v)))) \<and>
   (\<forall>r v. request_findUnique d i = Some r \<and> skill_findUnique d (skillId r) = Some v \<and>
          s_videoPath v \<in> files \<longrightarrow>
      stream (snd (accept_request d i (toId r))) files (fromId r) (skillId r) =
        Reply (s_videoPath v))"
proof (intro conjI allI impI)
  assume "s \<notin> s_id ` set (skills d)"
  then have "skill_findUnique d s = None" by (simp add: skill_find_None)
  then show "stream d files u s = Fail 404 ''Video not found''" by (simp add: stream_def)
next
  fix v assume "skill_findUnique d s = Some v"
    and "s_ownerId v \<noteq> u \<and> \<not> (\<exists>p \<in> set (permissions d). userId p = u \<and> videoId p = s)"
  then show "stream d files u s = Fail 403 ''No permission''"
    by (simp add: stream_cases)
next
  fix v assume "skill_findUnique d s = Some v"
    and "s_ownerId v = u \<or> (\<exists>p \<in> set (permissions d). userId p = u \<and> videoId p = s)"
    and "s_videoPath v \<notin> files"
  then show "stream d files u s = Fail 404 ''File missing''"
    by (auto simp: stream_cases)
next
  fix v assume "skill_findUnique d s = Some v"
    and "s_ownerId v = u \<or> (\<exists>p \<in> set (permissions d). userId p = u \<and> videoId p = s)"
    and "s_videoPath v \<in> files"
  then show "stream d files u s = Reply (s_videoPath v)"
    by (auto simp: stream_cases)
next
  fix r v assume a: "request_findUnique d i = Some r \<and> skill_findUnique d (skillId r) = Some v \<and>
          s_videoPath v \<in> files"
  let ?d = "snd (accept_request d i (toId r))"
  from a have f: "request_findUnique d i = Some r" by simp
  from a f have v: "skill_findUnique ?d (skillId r) = Some v"
    by (simp add: accept_request_ok skill_findUnique_def)
  from a show "stream ?d files (fromId r) (skillId r) = Reply (s_videoPath v)"
    using permission_after_accept [OF f] by (simp add: stream_cases [OF v])
qed

theorem stream_gate_witness:
  "(7::int) \<notin> s_id ` set (skills ex_pending) \<and>
   stream ex_pending {''v1.mp4''} 1 7 = Fail 404 ''Video not found'' \<and>
   skill_findUnique ex_pending 1 = Some ex_video \<and>
   stream ex_pending {''v1.mp4''} 2 1 = Reply ''v1.mp4'' \<and>
   stream ex_pending {''v1.mp4''} 1 1 = Fail 403 ''No permission'' \<and>
   stream ex_pending {''v1.mp4''} 3 1 = Fail 403 ''No permission'' \<and>
   stream ex_pending {} 2 1 = Fail 404 ''File missing'' \<and>
   request_findUnique ex_pending 1 = Some ex_request \<and>
   stream ex_accepted {''v1.mp4''} 1 1 = Reply ''v1.mp4''"
proof -
  have h1: "(7::int) \<notin> s_id ` set (skills ex_pending)" by code_simp
  have h2: "skill_findUnique ex_pending 1 = Some ex_video" by code_simp
  have o2: "s_ownerId ex_video = 2" and p: "s_videoPath ex_video = ''v1.mp4''"
    by (simp_all add: ex_video_def)
  have n1: "s_ownerId ex_video \<noteq> 1 \<and>
      \<not> (\<exists>p \<in> set (permissions ex_pending). userId p = 1 \<and> videoId p = 1)"
    by code_simp
  have n3: "s_ownerId ex_video \<noteq> 3 \<and>
      \<not> (\<exists>p \<in> set (permissions ex_pending). userId p = 3 \<and> videoId p = 1)"
    by code_simp
  have h8: "request_findUnique ex_pending 1 = Some ex_request" by code_simp
  have f: "toId ex_request = 2" "fromId ex_request = 1" "skillId ex_request = 1"
    by (simp_all add: ex_request_def)
  have h2': "skill_findUnique ex_pending (skillId ex_request) = Some ex_video"
    using h2 by (simp add: f)
  have inf: "s_videoPath ex_video \<in> {''v1.mp4''}" by (simp add: p)
  have notin: "s_videoPath ex_video \<notin> ({} :: string set)" by simp
  note t7 = stream_gate [where s = 7 and d = ex_pending and files = "{''v1.mp4''}" and u = 1]
  note t2 = stream_gate [where s = 1 and d = ex_pending and files = "{''v1.mp4''}" and u = 2]
  note t1 = stream_gate [where s = 1 and d = ex_pending and files = "{''v1.mp4''}" and u = 1
      and i = 1]
  note t3 = stream_gate [where s = 1 and d = ex_pending and files = "{''v1.mp4''}" and u = 3]
  note t0 = stream_gate [where s = 1 and d = ex_pending and files = "{}" and u = 2]
  have c1: "stream ex_pending {''v1.mp4''} 1 7 = Fail 404 ''Video not found''"
    by (rule mp [OF conjunct1 [OF t7] h1])
  note a2 = mp [OF conjunct2 [OF mp [OF spec [OF conjunct1 [OF conjunct2 [OF t2]]] h2]]
                disjI1 [OF o2]]
  have c2: "stream ex_pending {''v1.mp4''} 2 1 = Reply ''v1.mp4''"
    using mp [OF conjunct2 [OF a2] inf] by (simp add: p)
  have c3: "stream ex_pending {''v1.mp4''} 1 1 = Fail 403 ''No permission''"
    by (rule mp [OF conjunct1 [OF mp [OF spec [OF conjunct1 [OF conjunct2 [OF t1]]] h2]] n1])
  have c4: "stream ex_pending {''v1.mp4''} 3 1 = Fail 403 ''No permission''"
    by (rule mp [OF conjunct1 [OF mp [OF spec [OF conjunct1 [OF conjunct2 [OF t3]]] h2]] n3])
  note a0 = mp [OF conjunct2 [OF mp [OF spec [OF conjunct1 [OF conjunct2 [OF t0]]] h2]]
                disjI1 [OF o2]]
  have c5: "stream ex_pending {} 2 1 = Fail 404 ''File missing''"
    by (rule mp [OF conjunct1 [OF a0] notin])
  have c6: "stream ex_accepted {''v1.mp4''} 1 1 = Reply ''v1.mp4''"
    using mp [OF spec [OF spec [OF conjunct2 [OF conjunct2 [OF t1]]]]
                 conjI [OF h8 conjI [OF h2' inf]]]
    by (simp add: f p ex_accepted_def)
  show ?thesis
    by (intro conjI) (rule h1 h2 h8 c1 c2 c3 c4 c5 c6)+
qed

subsection \<open>Requests and permissions\<close>

text \<open>
  Claim C10. Creating a request does not consult the Permission table: its response and
  the request table it leaves are the same for every Permission table. A user who holds
  a Permission row for a skill of someone else, and has no pending request for it, still
  gets a new pending request, although streaming the skill is not refused to that user.
\<close>

theorem create_request_ignores_permission:
  "fst (create_request (d\<lparr>permissions := ps\<rparr>) now u s) = fst (create_request d now u s) \<and>
   requests (snd (create_request (d\<lparr>permissions := ps\<rparr>) now u s)) =
     requests (snd (create_request d now u s)) \<and>
   (\<forall>v. skill_findUnique d s = Some v \<and> s_ownerId v \<noteq> u \<and>
        \<not> (\<exists>r \<in> set (requests d). fromId r = u \<and> skillId r = s \<and> status r = ''pending'') \<and>
        (\<exists>p \<in> set (permissions d). userId p = u \<and> videoId p = s) \<longrightarrow>
      (\<exists>r. create_request d now u s = (Reply r, d\<lparr>requests := requests d @ [r]\<rparr>) \<and>
           status r = ''pending'' \<and> fromId r = u \<and> toId r = s_ownerId v \<and> skillId r = s) \<and>
      stream d files u s \<noteq> Fail 403 ''No permission'')"
proof (intro conjI allI impI)
  show "fst (create_request (d\<lparr>permissions := ps\<rparr>) now u s) = fst (create_request d now u s)"
    by (simp add: create_request_def skill_findUnique_def request_findFirst_pending_def Let_def
          split: option.splits)
next
  show "requests (snd (create_request (d\<lparr>permissions := ps\<rparr>) now u s)) =
     requests (snd (create_request d now u s))"
    by (simp add: create_request_def skill_findUnique_def request_findFirst_pending_def Let_def
          split: option.splits)
next
  fix v assume a: "skill_findUnique d s = Some v \<and> s_ownerId v \<noteq> u \<and>
        \<not> (\<exists>r \<in> set (requests d). fromId r = u \<and> skillId r = s \<and> status r = ''pending'') \<and>
        (\<exists>p \<in> set (permissions d). userId p = u \<and> videoId p = s)"
  then have v: "skill_findUnique d s = Some v" and o: "s_ownerId v \<noteq> u"
    and n: "request_findFirst_pending d u s = None"
    by (simp_all add: pending_find_None)
  show "\<exists>r. create_request d now u s = (Reply r, d\<lparr>requests := requests d @ [r]\<rparr>) \<and>
           status r = ''pending'' \<and> fromId r = u \<and> toId r = s_ownerId v \<and> skillId r = s"
    using create_request_ok [OF v o n] by simp
next
  fix v assume a: "skill_findUnique d s = Some v \<and> s_ownerId v \<noteq> u \<and>
        \<not> (\<exists>r \<in> set (requests d). fromId r = u \<and> skillId r = s \<and> status r = ''pending'') \<and>
        (\<exists>p \<in> set (permissions d). userId p = u \<and> videoId p = s)"
  then have v: "skill_findUnique d s = Some v" by simp
  from a show "stream d files u s \<noteq> Fail 403 ''No permission''"
    by (simp add: stream_cases [OF v])
qed

theorem create_request_ignores_permission_witness:
  "skill_findUnique ex_accepted 1 = Some ex_video \<and> s_ownerId ex_video \<noteq> 1 \<and>
   \<not> (\<exists>r \<in> set (requests ex_accepted). fromId r = 1 \<and> skillId r = 1 \<and> status r = ''pending'') \<and>
   (\<exists>p \<in> set (permissions ex_accepted). userId p = 1 \<and> videoId p = 1) \<and>
   (\<exists>r. create_request ex_accepted 20 1 1 =
           (Reply r, ex_accepted\<lparr>requests := requests ex_accepted @ [r]\<rparr>) \<and>
        status r = ''pending'' \<and> fromId r = 1 \<and> toId r = 2 \<and> skillId r = 1) \<and>
   stream ex_accepted {''v1.mp4''} 1 1 \<noteq> Fail 403 ''No permission''"
proof -
  have h1: "skill_findUnique ex_accepted 1 = Some ex_video" by code_simp
  have h2: "s_ownerId ex_video \<noteq> 1" and o: "s_ownerId ex_video = 2"
    by (simp_all add: ex_video_def)
  have h3: "\<not> (\<exists>r \<in> set (requests ex_accepted).
                 fromId r = 1 \<and> skillId r = 1 \<and> status r = ''pending'')"
    by code_simp
  have h4: "\<exists>p \<in> set (permissions ex_accepted). userId p = 1 \<and> videoId p = 1" by code_simp
  note t = mp [OF spec [OF conjunct2 [OF conjunct2 [OF create_request_ignores_permission
      [where d = ex_accepted and now = 20 and u = 1 and s = 1 and files = "{''v1.mp4''}"]]]]
      conjI [OF h1 conjI [OF h2 conjI [OF h3 h4]]]]
  from conjunct1 [OF t]
  have c1: "\<exists>r. create_request ex_accepted 20 1 1 =
           (Reply r, ex_accepted\<lparr>requests := requests ex_accepted @ [r]\<rparr>) \<and>
        status r = ''pending'' \<and> fromId r = 1 \<and> toId r = 2 \<and> skillId r = 1"
    by (elim exE conjE, intro exI conjI) (simp_all add: o)
  have c2: "stream ex_accepted {''v1.mp4''} 1 1 \<noteq> Fail 403 ''No permission''"
    by (rule conjunct2 [OF t])
  show ?thesis
    by (intro conjI) (rule h1 h2 h3 h4 c1 c2)+
qed

end
